theory Spec2Isabelle
  imports Main "HOL-Library.Word"
begin

section \<open>Python values\<close>

text \<open>
  A Python \<open>str\<close> is a sequence of code points, a \<open>bytes\<close> object a sequence of
  octets. Literals of the source are written with \<open>lit\<close>.
\<close>

type_synonym byte = "8 word"
type_synonym bytes = "byte list"
type_synonym pystr = "nat list"

definition lit :: "string \<Rightarrow> pystr" where
  "lit cs = map of_char cs"

definition blit :: "string \<Rightarrow> bytes" where
  "blit cs = map of_char cs"

text \<open>The exceptions that the modelled code can meet.\<close>

datatype exn =
    UnicodeEncodeError
  | UnicodeDecodeError
  | InvalidToken
  | IntegrityError
  | OperationalError
  | RuntimeError string
  | ConnectionError

subsection \<open>The UTF-8 codec\<close>

text \<open>
  \<open>s.encode("utf-8")\<close> raises \<open>UnicodeEncodeError\<close> on a lone surrogate; the result
  \<open>None\<close> stands for that exception.
\<close>

definition encode_cp :: "nat \<Rightarrow> bytes option" where
  "encode_cp c =
     (if c < 0x80 then Some [of_nat c]
      else if c < 0x800 then Some [of_nat (0xC0 + c div 64), of_nat (0x80 + c mod 64)]
      else if 0xD800 \<le> c \<and> c \<le> 0xDFFF then None
      else if c < 0x10000 then
        Some [of_nat (0xE0 + c div 4096), of_nat (0x80 + c div 64 mod 64), of_nat (0x80 + c mod 64)]
      else if c < 0x110000 then
        Some [of_nat (0xF0 + c div 262144), of_nat (0x80 + c div 4096 mod 64),
              of_nat (0x80 + c div 64 mod 64), of_nat (0x80 + c mod 64)]
      else None)"

fun str_encode_utf8 :: "pystr \<Rightarrow> bytes option" where
  "str_encode_utf8 [] = Some []"
| "str_encode_utf8 (c # cs) =
     (case encode_cp c of
        None \<Rightarrow> None
      | Some b \<Rightarrow> (case str_encode_utf8 cs of None \<Rightarrow> None | Some bs \<Rightarrow> Some (b @ bs)))"

definition is_cont :: "byte \<Rightarrow> bool" where
  "is_cont b \<longleftrightarrow> 0x80 \<le> unat b \<and> unat b < 0xC0"

text \<open>
  \<open>b.decode("utf-8")\<close> is strict: it raises \<open>UnicodeDecodeError\<close> (here \<open>None\<close>) on a
  truncated or overlong sequence, on an encoded surrogate and beyond U+10FFFF.
\<close>

fun bytes_decode_utf8 :: "bytes \<Rightarrow> pystr option" where
  "bytes_decode_utf8 [] = Some []"
| "bytes_decode_utf8 (b0 # bs) =
     (let n0 = unat b0 in
      if n0 < 0x80 then map_option ((#) n0) (bytes_decode_utf8 bs)
      else if 0xC2 \<le> n0 \<and> n0 < 0xE0 then
        (case bs of
           b1 # r \<Rightarrow>
             if is_cont b1
             then map_option ((#) ((n0 - 0xC0) * 64 + (unat b1 - 0x80))) (bytes_decode_utf8 r)
             else None
         | _ \<Rightarrow> None)
      else if 0xE0 \<le> n0 \<and> n0 < 0xF0 then
        (case bs of
           b1 # b2 # r \<Rightarrow>
             (let c = (n0 - 0xE0) * 4096 + (unat b1 - 0x80) * 64 + (unat b2 - 0x80) in
              if is_cont b1 \<and> is_cont b2 \<and> 0x800 \<le> c \<and> \<not> (0xD800 \<le> c \<and> c \<le> 0xDFFF)
              then map_option ((#) c) (bytes_decode_utf8 r)
              else None)
         | _ \<Rightarrow> None)
      else if 0xF0 \<le> n0 \<and> n0 < 0xF5 then
        (case bs of
           b1 # b2 # b3 # r \<Rightarrow>
             (let c = (n0 - 0xF0) * 262144 + (unat b1 - 0x80) * 4096
                      + (unat b2 - 0x80) * 64 + (unat b3 - 0x80) in
              if is_cont b1 \<and> is_cont b2 \<and> is_cont b3 \<and> 0x10000 \<le> c \<and> c < 0x110000
              then map_option ((#) c) (bytes_decode_utf8 r)
              else None)
         | _ \<Rightarrow> None)
      else None)"

section \<open>The secret cipher\<close>

text \<open>
  \<open>Fernet\<close> comes from the \<open>cryptography\<close> package. An instance is a key together
  with its two operations: \<open>encrypt\<close> draws the clock and sixteen random octets
  (the \<open>entropy\<close> argument) and returns a token; \<open>decrypt\<close> raises \<open>InvalidToken\<close>
  (here \<open>None\<close>) on a token that it cannot authenticate.
\<close>

type_synonym entropy = "nat \<times> bytes"

record fernet =
  encrypt :: "entropy \<Rightarrow> bytes \<Rightarrow> bytes"
  decrypt :: "bytes \<Rightarrow> bytes option"

text \<open>
  The module keeps the instance in the global \<open>_FERNET\<close>. On first use
  \<open>_get_fernet\<close> builds it from the key file (or from a fresh in-memory key when
  that fails); \<open>key_file_fernet\<close> is the instance that this first use yields.
\<close>

record globals =
  key_file_fernet :: fernet
  FERNET :: "fernet option"

definition get_fernet :: "globals \<Rightarrow> fernet \<times> globals" where
  "get_fernet g =
     (case FERNET g of
        Some f \<Rightarrow> (f, g)
      | None \<Rightarrow> (key_file_fernet g, g\<lparr>FERNET := Some (key_file_fernet g)\<rparr>))"

definition marker :: pystr where
  "marker = lit ''gAAAA''"

definition startswith :: "pystr \<Rightarrow> pystr \<Rightarrow> bool" where
  "startswith s p \<longleftrightarrow> take (length p) s = p"

fun is_enc :: "pystr option \<Rightarrow> bool" where
  "is_enc None = False"
| "is_enc (Some val) = (if val = [] then False else startswith val marker)"

fun enc :: "entropy \<Rightarrow> pystr option \<Rightarrow> globals \<Rightarrow> pystr option \<times> globals" where
  "enc r None g = (None, g)"
| "enc r (Some val) g =
     (let (f, g') = get_fernet g in
      case str_encode_utf8 val of
        None \<Rightarrow> (Some val, g')
      | Some b \<Rightarrow>
          (case bytes_decode_utf8 (encrypt f r b) of
             None \<Rightarrow> (Some val, g')
           | Some t \<Rightarrow> (Some t, g')))"

fun dec :: "pystr option \<Rightarrow> globals \<Rightarrow> pystr option \<times> globals" where
  "dec None g = (None, g)"
| "dec (Some val) g =
     (let (f, g') = get_fernet g in
      if is_enc (Some val) then
        (case str_encode_utf8 val of
           None \<Rightarrow> (Some val, g')
         | Some b \<Rightarrow>
             (case decrypt f b of
                None \<Rightarrow> (Some val, g')
              | Some p \<Rightarrow>
                  (case bytes_decode_utf8 p of
                     None \<Rightarrow> (Some val, g')
                   | Some t \<Rightarrow> (Some t, g'))))
      else (Some val, g'))"

text \<open>
  What the code relies on from the library: a token decrypts, under the key that made
  it, to the plaintext; a token is URL-safe base64 text, hence ASCII; and it opens with
  the version octet \<open>0x80\<close> followed by the high octets of a 64-bit timestamp, which
  base64 renders as \<open>gAAAA\<close>.
\<close>

definition is_ascii :: "bytes \<Rightarrow> bool" where
  "is_ascii bs \<longleftrightarrow> list_all (\<lambda>b. unat b < 0x80) bs"

definition fernet_contract :: "fernet \<Rightarrow> bool" where
  "fernet_contract f \<longleftrightarrow>
     (\<forall>r p. decrypt f (encrypt f r p) = Some p
          \<and> is_ascii (encrypt f r p)
          \<and> take 5 (encrypt f r p) = blit ''gAAAA'')"

subsection \<open>A stand-in instance\<close>

text \<open>
  A cipher of no strength with the shape of the library's: the marker, a checksum and
  the plaintext, each octet written as two letters. It serves to evaluate the
  definitions on concrete values.
\<close>

definition nibbles :: "byte \<Rightarrow> bytes" where
  "nibbles b = [of_nat (65 + unat b div 16), of_nat (65 + unat b mod 16)]"

fun checksum :: "bytes \<Rightarrow> byte" where
  "checksum [] = 0x5A"
| "checksum (b # bs) = b + checksum bs"

fun unnibbles :: "bytes \<Rightarrow> bytes option" where
  "unnibbles [] = Some []"
| "unnibbles [x] = None"
| "unnibbles (x # y # r) =
     (if 65 \<le> unat x \<and> unat x < 81 \<and> 65 \<le> unat y \<and> unat y < 81
      then map_option ((#) (of_nat ((unat x - 65) * 16 + (unat y - 65)))) (unnibbles r)
      else None)"

definition demo_encrypt :: "entropy \<Rightarrow> bytes \<Rightarrow> bytes" where
  "demo_encrypt r p = blit ''gAAAA'' @ concat (map nibbles (checksum p # p))"

definition demo_decrypt :: "bytes \<Rightarrow> bytes option" where
  "demo_decrypt t =
     (if take 5 t = blit ''gAAAA'' then
        (case unnibbles (drop 5 t) of
           Some (c # p) \<Rightarrow> if c = checksum p then Some p else None
         | _ \<Rightarrow> None)
      else None)"

definition demo_fernet :: fernet where
  "demo_fernet = \<lparr>encrypt = demo_encrypt, decrypt = demo_decrypt\<rparr>"

definition demo_globals :: globals where
  "demo_globals = \<lparr>key_file_fernet = demo_fernet, FERNET = None\<rparr>"

section \<open>Properties of the codec and of the cipher\<close>

lemma unat_byte: "n < 256 \<Longrightarrow> unat (of_nat n :: byte) = n"
  by (simp add: unat_of_nat)

lemma decode_1byte:
  "unat b0 = c \<Longrightarrow> c < 0x80 \<Longrightarrow>
   bytes_decode_utf8 (b0 # rest) = map_option ((#) c) (bytes_decode_utf8 rest)"
  by (simp add: Let_def)

lemma decode_2byte:
  "unat b0 = 0xC0 + q \<Longrightarrow> unat b1 = 0x80 + r \<Longrightarrow> 2 \<le> q \<Longrightarrow> q < 32 \<Longrightarrow> r < 64 \<Longrightarrow>
   bytes_decode_utf8 (b0 # b1 # rest) = map_option ((#) (q * 64 + r)) (bytes_decode_utf8 rest)"
  by (simp add: Let_def is_cont_def)

lemma decode_3byte:
  "unat b0 = 0xE0 + p \<Longrightarrow> unat b1 = 0x80 + q \<Longrightarrow> unat b2 = 0x80 + r \<Longrightarrow>
   p < 16 \<Longrightarrow> q < 64 \<Longrightarrow> r < 64 \<Longrightarrow> c = p * 4096 + q * 64 + r \<Longrightarrow>
   0x800 \<le> c \<Longrightarrow> \<not> (0xD800 \<le> c \<and> c \<le> 0xDFFF) \<Longrightarrow>
   bytes_decode_utf8 (b0 # b1 # b2 # rest) = map_option ((#) c) (bytes_decode_utf8 rest)"
  by (simp add: Let_def is_cont_def)

lemma decode_4byte:
  "unat b0 = 0xF0 + p \<Longrightarrow> unat b1 = 0x80 + q \<Longrightarrow> unat b2 = 0x80 + r \<Longrightarrow>
   unat b3 = 0x80 + s \<Longrightarrow> p < 5 \<Longrightarrow> q < 64 \<Longrightarrow> r < 64 \<Longrightarrow> s < 64 \<Longrightarrow>
   c = p * 262144 + q * 4096 + r * 64 + s \<Longrightarrow> 0x10000 \<le> c \<Longrightarrow> c < 0x110000 \<Longrightarrow>
   bytes_decode_utf8 (b0 # b1 # b2 # b3 # rest) = map_option ((#) c) (bytes_decode_utf8 rest)"
  by (simp add: Let_def is_cont_def)

lemma split3: "(c::nat) = c div 4096 * 4096 + c div 64 mod 64 * 64 + c mod 64"
proof -
  have a: "c div 4096 = c div 64 div 64" by (simp add: div_mult2_eq [symmetric])
  have "c = c div 64 * 64 + c mod 64" by simp
  also have "c div 64 = c div 4096 * 64 + c div 64 mod 64" unfolding a by simp
  finally show ?thesis by (simp add: algebra_simps)
qed

lemma split4:
  "(c::nat) = c div 262144 * 262144 + c div 4096 mod 64 * 4096 + c div 64 mod 64 * 64 + c mod 64"
proof -
  have a: "c div 4096 = c div 64 div 64" by (simp add: div_mult2_eq [symmetric])
  have b: "c div 262144 = c div 4096 div 64" by (simp add: div_mult2_eq [symmetric])
  have "c = c div 64 * 64 + c mod 64" by simp
  also have "c div 64 = c div 4096 * 64 + c div 64 mod 64" unfolding a by simp
  also have "c div 4096 = c div 262144 * 64 + c div 4096 mod 64" unfolding b by simp
  finally show ?thesis by (simp add: algebra_simps)
qed

lemma decode_encode_cp:
  assumes "encode_cp c = Some b"
  shows "bytes_decode_utf8 (b @ rest) = map_option ((#) c) (bytes_decode_utf8 rest)"
proof -
  consider (one) "c < 0x80" | (two) "0x80 \<le> c" "c < 0x800"
    | (three) "0x800 \<le> c" "c < 0x10000" "\<not> (0xD800 \<le> c \<and> c \<le> 0xDFFF)"
    | (four) "0x10000 \<le> c" "c < 0x110000"
    | (bad) "(0xD800 \<le> c \<and> c \<le> 0xDFFF) \<or> 0x110000 \<le> c"
    by linarith
  then show ?thesis
  proof cases
    case one
    then have b: "b = [of_nat c]" using assms by (simp add: encode_cp_def)
    have "unat (of_nat c :: byte) = c" using one by (intro unat_byte) simp
    then show ?thesis unfolding b using one by (simp only: append_Cons append_Nil decode_1byte)
  next
    case two
    then have b: "b = [of_nat (0xC0 + c div 64), of_nat (0x80 + c mod 64)]"
      using assms by (simp add: encode_cp_def)
    have q: "2 \<le> c div 64" "c div 64 < 32" using two by arith+
    have u0: "unat (of_nat (0xC0 + c div 64) :: byte) = 0xC0 + c div 64"
      using q by (intro unat_byte) simp
    have u1: "unat (of_nat (0x80 + c mod 64) :: byte) = 0x80 + c mod 64"
      by (intro unat_byte) simp
    have "bytes_decode_utf8 (b @ rest)
          = map_option ((#) (c div 64 * 64 + c mod 64)) (bytes_decode_utf8 rest)"
      unfolding b append_Cons append_Nil
      by (rule decode_2byte [OF u0 u1 q]) simp
    then show ?thesis by simp
  next
    case three
    then have b: "b = [of_nat (0xE0 + c div 4096), of_nat (0x80 + c div 64 mod 64),
                       of_nat (0x80 + c mod 64)]"
      using assms by (auto simp: encode_cp_def split: if_splits)
    have p: "c div 4096 < 16" using three by arith
    have u0: "unat (of_nat (0xE0 + c div 4096) :: byte) = 0xE0 + c div 4096"
      using p by (intro unat_byte) simp
    have u1: "unat (of_nat (0x80 + c div 64 mod 64) :: byte) = 0x80 + c div 64 mod 64"
      by (intro unat_byte) simp
    have u2: "unat (of_nat (0x80 + c mod 64) :: byte) = 0x80 + c mod 64"
      by (intro unat_byte) simp
    show ?thesis
      unfolding b append_Cons append_Nil
      by (rule decode_3byte [OF u0 u1 u2 p _ _ split3 three(1) three(3)]) simp_all
  next
    case four
    then have b: "b = [of_nat (0xF0 + c div 262144), of_nat (0x80 + c div 4096 mod 64),
                       of_nat (0x80 + c div 64 mod 64), of_nat (0x80 + c mod 64)]"
      using assms by (simp add: encode_cp_def)
    have p: "c div 262144 < 5" using four by arith
    have u0: "unat (of_nat (0xF0 + c div 262144) :: byte) = 0xF0 + c div 262144"
      using p by (intro unat_byte) simp
    have u1: "unat (of_nat (0x80 + c div 4096 mod 64) :: byte) = 0x80 + c div 4096 mod 64"
      by (intro unat_byte) simp
    have u2: "unat (of_nat (0x80 + c div 64 mod 64) :: byte) = 0x80 + c div 64 mod 64"
      by (intro unat_byte) simp
    have u3: "unat (of_nat (0x80 + c mod 64) :: byte) = 0x80 + c mod 64"
      by (intro unat_byte) simp
    show ?thesis
      unfolding b append_Cons append_Nil
      by (rule decode_4byte [OF u0 u1 u2 u3 p _ _ _ split4 four]) simp_all
  next
    case bad
    then show ?thesis using assms by (auto simp: encode_cp_def)
  qed
qed

lemma decode_encode_utf8:
  "str_encode_utf8 s = Some bs \<Longrightarrow> bytes_decode_utf8 bs = Some s"
proof (induction s arbitrary: bs)
  case Nil
  then show ?case by simp
next
  case (Cons c cs)
  from Cons.prems obtain b bs' where b: "encode_cp c = Some b"
    and bs': "str_encode_utf8 cs = Some bs'" and bs: "bs = b @ bs'"
    by (auto split: option.splits)
  show ?case unfolding bs by (simp only: decode_encode_cp [OF b] Cons.IH [OF bs'] option.map)
qed

lemma decode_ascii: "is_ascii bs \<Longrightarrow> bytes_decode_utf8 bs = Some (map unat bs)"
  by (induction bs) (simp_all add: is_ascii_def Let_def)

lemma encode_ascii: "is_ascii bs \<Longrightarrow> str_encode_utf8 (map unat bs) = Some bs"
  by (induction bs) (simp_all add: is_ascii_def encode_cp_def)

lemma get_fernet_again:
  "get_fernet g = (f, g') \<Longrightarrow> get_fernet g' = (f, g')"
  by (auto simp: get_fernet_def split: option.splits)

lemma lit_marker: "map unat (blit ''gAAAA'') = marker"
  by (simp add: blit_def marker_def lit_def)

lemma token_is_enc:
  assumes "take 5 t = blit ''gAAAA''"
  shows "is_enc (Some (map unat t))"
proof -
  have "take 5 (map unat t) = map unat (take 5 t)" by (rule take_map)
  then have "take 5 (map unat t) = marker" by (simp only: assms lit_marker)
  moreover have "length marker = 5" by (simp add: marker_def lit_def)
  moreover have "t \<noteq> []" using assms by (auto simp: blit_def)
  ultimately show ?thesis by (simp add: startswith_def)
qed

lemma dec_of_token:
  assumes "get_fernet g = (f, g)" "is_ascii t" "take 5 t = blit ''gAAAA''"
    "decrypt f t = Some p" "bytes_decode_utf8 p = Some s"
  shows "dec (Some (map unat t)) g = (Some s, g)"
  using assms token_is_enc [OF assms(3)]
  by (simp add: encode_ascii del: is_enc.simps)

lemma dec_unencodable:
  "str_encode_utf8 v = None \<Longrightarrow> fst (dec (Some v) g) = Some v"
  by (simp add: case_prod_beta)

lemma dec_not_enc:
  "\<not> is_enc (Some v) \<Longrightarrow> fst (dec (Some v) g) = Some v"
  by (simp add: case_prod_beta del: is_enc.simps)

lemma unat_nibbles:
  "unat (of_nat (65 + unat b div 16) :: byte) = 65 + unat b div 16"
  "unat (of_nat (65 + unat b mod 16) :: byte) = 65 + unat b mod 16"
  "unat b div 16 < 16"
  for b :: byte
proof -
  have "unat b < 2 ^ LENGTH(8)" by (rule unsigned_less)
  then have "unat b < 256" by simp
  then show hi: "unat b div 16 < 16" by arith
  show "unat (of_nat (65 + unat b div 16) :: byte) = 65 + unat b div 16"
    using hi by (intro unat_byte) simp
  show "unat (of_nat (65 + unat b mod 16) :: byte) = 65 + unat b mod 16"
    by (intro unat_byte) simp
qed

lemma unnibbles_step: "unnibbles (nibbles b @ r) = map_option ((#) b) (unnibbles r)"
proof -
  have "(of_nat (unat b div 16 * 16 + unat b mod 16) :: byte) = b" by simp
  then show ?thesis
    using unat_nibbles(3) [of b]
    by (simp add: nibbles_def unat_nibbles(1,2) del: of_nat_add of_nat_mult)
qed

lemma unnibbles_nibbles:
  "unnibbles (concat (map nibbles p) @ r) = map_option ((@) p) (unnibbles r)"
proof (induction p)
  case Nil
  show ?case by (simp add: option.map_ident)
next
  case (Cons b p)
  show ?case
    by (simp add: unnibbles_step Cons.IH option.map_comp comp_def)
qed

lemma is_ascii_nibbles: "is_ascii (concat (map nibbles p))"
proof (induction p)
  case Nil
  show ?case by (simp add: is_ascii_def)
next
  case (Cons b p)
  have "is_ascii (nibbles b)"
    using unat_nibbles(3) [of b]
    by (simp add: is_ascii_def nibbles_def unat_nibbles(1,2) del: of_nat_add)
  then show ?case using Cons by (simp add: is_ascii_def)
qed

lemma demo_contract: "fernet_contract demo_fernet"
proof -
  have m: "length (blit ''gAAAA'') = 5" "is_ascii (blit ''gAAAA'')"
    by (simp_all add: blit_def is_ascii_def)
  have "demo_decrypt (demo_encrypt r p) = Some p" for r p
    using unnibbles_nibbles [of "checksum p # p" "[]"]
    by (simp add: demo_decrypt_def demo_encrypt_def m del: concat.simps list.map)
  moreover have "is_ascii (demo_encrypt r p)" for r p
    using is_ascii_nibbles [of "checksum p # p"] m
    by (simp add: demo_encrypt_def is_ascii_def del: concat.simps list.map)
  moreover have "take 5 (demo_encrypt r p) = blit ''gAAAA''" for r p
    by (simp add: demo_encrypt_def m)
  ultimately show ?thesis by (simp add: fernet_contract_def demo_fernet_def)
qed

lemma demo_get: "get_fernet demo_globals = (demo_fernet, demo_globals\<lparr>FERNET := Some demo_fernet\<rparr>)"
  by (simp add: get_fernet_def demo_globals_def)


text \<open>
  Claim C1. For every plaintext string \<open>s\<close>, decrypting the token that encrypting \<open>s\<close>
  produced, under the same process-wide key, gives \<open>s\<close> back: \<open>_dec(_enc(s)) == s\<close>.
  The key is the one that \<open>_get_fernet\<close> hands out in the starting state; the second
  call finds it in the cache. A string that UTF-8 cannot encode is returned as it is
  by both functions.
\<close>

theorem enc_dec_roundtrip:
  assumes "fernet_contract (fst (get_fernet g))"
  shows "fst (dec (fst (enc r (Some s) g)) (snd (enc r (Some s) g))) = Some s"
proof -
  obtain f g' where fg: "get_fernet g = (f, g')" by (cases "get_fernet g")
  have again: "get_fernet g' = (f, g')" using fg by (rule get_fernet_again)
  have c: "decrypt f (encrypt f r p) = Some p" "is_ascii (encrypt f r p)"
    "take 5 (encrypt f r p) = blit ''gAAAA''" for p
    using assms fg unfolding fernet_contract_def by (simp_all del: split_paired_All)
  show ?thesis
  proof (cases "str_encode_utf8 s")
    case None
    then have "enc r (Some s) g = (Some s, g')" using fg by simp
    then show ?thesis using None by (simp only: fst_conv snd_conv dec_unencodable)
  next
    case (Some b)
    let ?t = "encrypt f r b"
    have "enc r (Some s) g = (Some (map unat ?t), g')"
      using fg Some by (simp add: decode_ascii [OF c(2)])
    moreover have "dec (Some (map unat ?t)) g' = (Some s, g')"
      by (rule dec_of_token [OF again c(2) c(3) c(1) decode_encode_utf8 [OF Some]])
    ultimately show ?thesis by (simp only: fst_conv snd_conv)
  qed
qed

theorem enc_dec_roundtrip_witness:
  "fernet_contract (fst (get_fernet demo_globals)) \<and>
   fst (dec (fst (enc (0, []) (Some (lit ''secret-token'')) demo_globals))
            (snd (enc (0, []) (Some (lit ''secret-token'')) demo_globals)))
   = Some (lit ''secret-token'')"
proof -
  have h: "fernet_contract (fst (get_fernet demo_globals))"
    by (simp add: demo_get demo_contract)
  show ?thesis using h enc_dec_roundtrip [OF h] by simp
qed


text \<open>
  Claim C5. For every string \<open>v\<close> that does not start with the marker, the empty string
  included, \<open>_dec(v)\<close> returns \<open>v\<close> unchanged.
\<close>

theorem dec_passthrough:
  "\<not> is_enc (Some v) \<Longrightarrow> fst (dec (Some v) g) = Some v"
  by (rule dec_not_enc)

theorem dec_passthrough_witness:
  "\<not> is_enc (Some []) \<and> fst (dec (Some []) demo_globals) = Some []
   \<and> \<not> is_enc (Some (lit ''_|WARNING:-DO-NOT-SHARE-THIS''))
   \<and> fst (dec (Some (lit ''_|WARNING:-DO-NOT-SHARE-THIS'')) demo_globals)
       = Some (lit ''_|WARNING:-DO-NOT-SHARE-THIS'')"
proof -
  have a: "\<not> is_enc (Some [])" by simp
  have b: "\<not> is_enc (Some (lit ''_|WARNING:-DO-NOT-SHARE-THIS''))"
    by (simp add: startswith_def marker_def lit_def)
  show ?thesis
    using a b dec_passthrough [OF a, of demo_globals] dec_passthrough [OF b, of demo_globals]
    by simp
qed

text \<open>
  Claim C3, as stated: a token that carries the marker but fails authenticated
  decryption is not returned unchanged; a failure distinct from the passthrough of
  unencrypted values is signalled. The code does neither. The token below is the
  encryption of \<open>secret-token\<close> with one character replaced; \<open>_dec\<close> hands it back as
  it is, which is also what it does for a value without the marker.
\<close>

theorem dec_corrupted_counterexample:
  "fst (enc (0, []) (Some (lit ''secret-token'')) demo_globals)
     = Some (lit ''gAAAACOHDGFGDHCGFHECNHEGPGLGFGO'')
   \<and> is_enc (Some (lit ''gAAAACOHDGFzDHCGFHECNHEGPGLGFGO''))
   \<and> decrypt demo_fernet (blit ''gAAAACOHDGFzDHCGFHECNHEGPGLGFGO'') = None
   \<and> fst (dec (Some (lit ''gAAAACOHDGFzDHCGFHECNHEGPGLGFGO'')) demo_globals)
       = Some (lit ''gAAAACOHDGFzDHCGFHECNHEGPGLGFGO'')"
  by code_simp

text \<open>
  Claim C3, amended. For every value that carries the marker and whose decryption
  fails, \<open>_dec\<close> returns the value itself, unchanged: the \<open>except\<close> branch yields the
  same result as the passthrough, and no failure is reported.
\<close>

theorem dec_undecryptable_returns_token:
  assumes "is_enc (Some v)" "str_encode_utf8 v = Some b"
    and "decrypt (fst (get_fernet g)) b = None"
  shows "fst (dec (Some v) g) = Some v"
  using assms by (simp add: case_prod_beta del: is_enc.simps)

theorem dec_undecryptable_returns_token_witness:
  "is_enc (Some (lit ''gAAAAzz''))
   \<and> str_encode_utf8 (lit ''gAAAAzz'') = Some (blit ''gAAAAzz'')
   \<and> decrypt (fst (get_fernet demo_globals)) (blit ''gAAAAzz'') = None
   \<and> fst (dec (Some (lit ''gAAAAzz'')) demo_globals) = Some (lit ''gAAAAzz'')"
proof -
  have a: "is_enc (Some (lit ''gAAAAzz''))"
    by (simp add: startswith_def marker_def lit_def)
  have b: "str_encode_utf8 (lit ''gAAAAzz'') = Some (blit ''gAAAAzz'')"
    by (simp add: lit_def blit_def encode_cp_def)
  have c: "decrypt (fst (get_fernet demo_globals)) (blit ''gAAAAzz'') = None"
    by (simp add: demo_get demo_fernet_def demo_decrypt_def blit_def)
  show ?thesis using a b c dec_undecryptable_returns_token [OF a b c] by simp
qed

end
